theory Spec2Isabelle
  imports Main
begin

section \<open>Python values and strings\<close>

text \<open>
  A Python \<open>str\<close> is a sequence of Unicode code points; \<open>len\<close>, \<open>strip\<close> and
  \<open>split\<close> work on code points, not on bytes. A code point is a natural number here
  and a \<open>str\<close> a list of them. String literals of the source are ASCII and are written
  through \<open>str_lit\<close>.
\<close>

type_synonym codepoint = nat
type_synonym pystr = "codepoint list"

definition str_lit :: "string \<Rightarrow> pystr" where
  "str_lit cs = map of_char cs"

text \<open>
  \<open>str.strip()\<close> and \<open>str.split()\<close> without arguments both use the whitespace test of
  \<open>str.isspace\<close>: the code points U+0009 to U+000D, U+001C to U+0020, U+0085, U+00A0,
  U+1680, U+2000 to U+200A, U+2028, U+2029, U+202F, U+205F and U+3000.
\<close>

definition isspace :: "codepoint \<Rightarrow> bool" where
  "isspace c \<longleftrightarrow>
     (0x09 \<le> c \<and> c \<le> 0x0D) \<or> (0x1C \<le> c \<and> c \<le> 0x20) \<or> c = 0x85 \<or> c = 0xA0 \<or>
     c = 0x1680 \<or> (0x2000 \<le> c \<and> c \<le> 0x200A) \<or> c = 0x2028 \<or> c = 0x2029 \<or>
     c = 0x202F \<or> c = 0x205F \<or> c = 0x3000"

text \<open>\<open>s.strip()\<close>: the string without its leading and its trailing whitespace.\<close>

definition str_strip :: "pystr \<Rightarrow> pystr" where
  "str_strip s = rev (dropWhile isspace (rev (dropWhile isspace s)))"

text \<open>
  \<open>s.split()\<close>: skip whitespace; if the string is exhausted, stop; otherwise the next
  token runs up to the next whitespace character or the end, and the scan goes on after it.
\<close>

function str_split :: "pystr \<Rightarrow> pystr list" where
  "str_split s =
     (case dropWhile isspace s of
        [] \<Rightarrow> []
      | c # cs \<Rightarrow>
          (c # takeWhile (\<lambda>x. \<not> isspace x) cs) # str_split (dropWhile (\<lambda>x. \<not> isspace x) cs))"
  by pat_completeness auto

termination str_split
proof (relation "measure length")
  show "wf (measure length)" by simp
next
  fix s :: pystr and c cs
  assume h: "dropWhile isspace s = c # cs"
  have "length (dropWhile (\<lambda>x. \<not> isspace x) cs) \<le> length cs"
    by (rule length_dropWhile_le)
  moreover have "length (c # cs) \<le> length s"
    using length_dropWhile_le [of isspace s] h by simp
  ultimately show "(dropWhile (\<lambda>x. \<not> isspace x) cs, s) \<in> measure length"
    by simp
qed

declare str_split.simps [simp del]

text \<open>
  The arguments a call can carry. The annotation of \<open>count_words\<close> asks for a \<open>str\<close>, and
  Python does not enforce it: the other constructors stand for the values without a
  \<open>strip\<close> attribute (those a JSON argument can denote besides a string).
\<close>

datatype pyval =
    PyNone
  | PyBool bool
  | PyInt int
  | PyStr pystr
  | PyList "pyval list"

fun type_name :: "pyval \<Rightarrow> pystr" where
  "type_name PyNone = str_lit ''NoneType''"
| "type_name (PyBool b) = str_lit ''bool''"
| "type_name (PyInt i) = str_lit ''int''"
| "type_name (PyStr s) = str_lit ''str''"
| "type_name (PyList vs) = str_lit ''list''"

text \<open>
  The exceptions the body of \<open>count_words\<close> can raise, all subclasses of \<open>Exception\<close>:
  the lookup of a missing attribute. \<open>exn_str\<close> is \<open>str(e)\<close>, with the type and the
  attribute in single quotes (U+0027).
\<close>

datatype exn = AttributeError pystr pystr

fun exn_str :: "exn \<Rightarrow> pystr" where
  "exn_str (AttributeError ty attr) =
     [0x27] @ ty @ [0x27] @ str_lit '' object has no attribute '' @ [0x27] @ attr @ [0x27]"

section \<open>The word counter\<close>

record WordCountResult =
  word_count :: int
  success :: bool
  message :: pystr

text \<open>
  The expression of the \<open>try\<close> block, \<open>len(input.strip().split())\<close>: its value, or the
  exception it raises.
\<close>

fun num_words :: "pyval \<Rightarrow> exn + int" where
  "num_words (PyStr s) = Inr (int (length (str_split (str_strip s))))"
| "num_words v = Inl (AttributeError (type_name v) (str_lit ''strip''))"

definition count_words :: "pyval \<Rightarrow> WordCountResult" where
  "count_words input =
     (case num_words input of
        Inr n \<Rightarrow>
          \<lparr>word_count = n, success = True, message = str_lit ''Word count successful''\<rparr>
      | Inl e \<Rightarrow>
          \<lparr>word_count = 0, success = False, message = str_lit ''Error: '' @ exn_str e\<rparr>)"


text \<open>
  The input of \<open>run_sample\<close>: two adjacent literals, which Python concatenates.
\<close>

definition sample_input :: pystr where
  "sample_input =
     str_lit (''Generative AI has the potential to transform how organizations automate work, '' @
              ''extract insights, and interact with data. It can also boost productivity.'')"

section \<open>Direct calls with arbitrary arguments\<close>











section \<open>The specification's word count\<close>

text \<open>
  The specification counts the maximal non-whitespace runs of the trimmed string. A run is
  a non-empty interval \<open>[i, j)\<close> of positions that hold no whitespace; it is maximal when
  it can be extended neither to the left (it starts the string or follows whitespace) nor
  to the right (it ends the string or precedes whitespace).
\<close>

definition is_maximal_run :: "pystr \<Rightarrow> nat \<times> nat \<Rightarrow> bool" where
  "is_maximal_run t r =
     (case r of (i, j) \<Rightarrow>
        i < j \<and> j \<le> length t \<and>
        list_all (\<lambda>k. \<not> isspace (t ! k)) [i..<j] \<and>
        (i = 0 \<or> isspace (t ! (i - 1))) \<and>
        (j = length t \<or> isspace (t ! j)))"

definition maximal_runs :: "pystr \<Rightarrow> (nat \<times> nat) list" where
  "maximal_runs t = filter (is_maximal_run t) (List.product [0..<length t] [0..<Suc (length t)])"

text \<open>
  Auxiliary notions for the proofs: \<open>is_run_start b t i\<close> holds when a run starts at
  position \<open>i\<close> of \<open>t\<close>, where \<open>b\<close> tells whether a run may start at position 0, and
  \<open>count_starts b t\<close> counts these positions in one pass.
\<close>

primrec count_starts :: "bool \<Rightarrow> pystr \<Rightarrow> nat" where
  "count_starts b [] = 0"
| "count_starts b (c # cs) = (if b \<and> \<not> isspace c then 1 else 0) + count_starts (isspace c) cs"

definition is_run_start :: "bool \<Rightarrow> pystr \<Rightarrow> nat \<Rightarrow> bool" where
  "is_run_start b t i \<longleftrightarrow>
     i < length t \<and> \<not> isspace (t ! i) \<and> (if i = 0 then b else isspace (t ! (i - 1)))"

section \<open>Properties of \<open>str_split\<close> and \<open>str_strip\<close>\<close>

lemma str_split_Nil: "str_split [] = []"
  by (simp add: str_split.simps)

lemma str_split_space: "isspace c \<Longrightarrow> str_split (c # s) = str_split s"
  by (simp add: str_split.simps [of "c # s"] str_split.simps [of s])

lemma str_split_nonspace:
  "\<not> isspace c \<Longrightarrow>
   str_split (c # s) =
     (c # takeWhile (\<lambda>x. \<not> isspace x) s) # str_split (dropWhile (\<lambda>x. \<not> isspace x) s)"
  by (simp add: str_split.simps [of "c # s"])

lemma str_split_leading: "\<forall>x\<in>set w. isspace x \<Longrightarrow> str_split (w @ s) = str_split s"
  by (induction w) (simp_all add: str_split_space)

lemma str_split_dropWhile: "str_split (dropWhile isspace s) = str_split s"
  by (induction s) (simp_all add: str_split_space)

lemma str_split_sep:
  "isspace c \<Longrightarrow> str_split (s1 @ c # s2) = str_split s1 @ str_split s2"
proof (induction s1 rule: str_split.induct)
  case (1 s)
  show ?case
  proof (cases "dropWhile isspace s")
    case Nil
    then have all: "\<forall>x\<in>set s. isspace x"
      by (simp add: dropWhile_eq_Nil_conv)
    then have "str_split s = []"
      using str_split_leading [of s "[]"] by (simp add: str_split_Nil)
    moreover have "str_split (s @ c # s2) = str_split s2"
      using all 1(2) str_split_leading [of s "c # s2"] by (simp add: str_split_space)
    ultimately show ?thesis by simp
  next
    case (Cons x xs)
    then have nx: "\<not> isspace x"
      using hd_dropWhile [of isspace s] by auto
    let ?n = "\<lambda>x. \<not> isspace x"
    have s: "s = takeWhile isspace s @ x # xs"
      using Cons takeWhile_dropWhile_id [of isspace s] by simp
    have tk: "takeWhile ?n (xs @ c # s2) = takeWhile ?n xs"
      and dr: "dropWhile ?n (xs @ c # s2) = dropWhile ?n xs @ c # s2"
    proof -
      show "takeWhile ?n (xs @ c # s2) = takeWhile ?n xs"
      proof (cases "\<forall>y\<in>set xs. ?n y")
        case True
        then have "takeWhile ?n (xs @ c # s2) = xs @ takeWhile ?n (c # s2)"
          by (intro takeWhile_append2) simp
        moreover have "takeWhile ?n xs = xs" using True by simp
        ultimately show ?thesis using 1(2) by (simp del: takeWhile_eq_all_conv)
      next
        case False
        then obtain y where "y \<in> set xs" "\<not> ?n y" by blast
        then show ?thesis by (rule takeWhile_append1)
      qed
      show "dropWhile ?n (xs @ c # s2) = dropWhile ?n xs @ c # s2"
      proof (cases "\<forall>y\<in>set xs. ?n y")
        case True
        then have "dropWhile ?n (xs @ c # s2) = dropWhile ?n (c # s2)"
          by (intro dropWhile_append2) simp
        moreover have "dropWhile ?n xs = []" using True by simp
        ultimately show ?thesis using 1(2) by simp
      next
        case False
        then obtain y where "y \<in> set xs" "\<not> ?n y" by blast
        then show ?thesis by (rule dropWhile_append1)
      qed
    qed
    have ws: "\<forall>y\<in>set (takeWhile isspace s). isspace y"
      by (auto dest: set_takeWhileD)
    have "str_split (s @ c # s2) = str_split (x # xs @ c # s2)"
      using str_split_leading [OF ws, of "x # xs @ c # s2"] s
      by (metis append.assoc append_Cons)
    also have "\<dots> = (x # takeWhile ?n xs) # str_split (dropWhile ?n xs @ c # s2)"
      using nx by (simp add: str_split_nonspace tk dr)
    also have "\<dots> = (x # takeWhile ?n xs) # (str_split (dropWhile ?n xs) @ str_split s2)"
      using 1(1) [OF Cons 1(2)] by simp
    also have "\<dots> = str_split (x # xs) @ str_split s2"
      using nx by (simp add: str_split_nonspace)
    also have "str_split (x # xs) = str_split s"
      using str_split_leading [OF ws, of "x # xs"] s by simp
    finally show ?thesis .
  qed
qed

lemma str_split_trailing: "\<forall>x\<in>set w. isspace x \<Longrightarrow> str_split (s @ w) = str_split s"
proof (induction w rule: rev_induct)
  case Nil
  show ?case by simp
next
  case (snoc c w)
  have "str_split (s @ w @ [c]) = str_split ((s @ w) @ c # [])" by simp
  also have "\<dots> = str_split (s @ w) @ str_split []"
    using snoc.prems by (intro str_split_sep) simp
  finally show ?case using snoc by (simp add: str_split_Nil)
qed

lemma str_strip_decomp:
  "\<exists>w1 w2. (\<forall>x\<in>set w1. isspace x) \<and> (\<forall>x\<in>set w2. isspace x) \<and> s = w1 @ str_strip s @ w2"
proof -
  let ?d = "dropWhile isspace s"
  have a: "s = takeWhile isspace s @ ?d" by simp
  have "rev ?d = takeWhile isspace (rev ?d) @ dropWhile isspace (rev ?d)" by simp
  then have b: "?d = str_strip s @ rev (takeWhile isspace (rev ?d))"
    unfolding str_strip_def by (metis rev_append rev_rev_ident)
  have "\<forall>x\<in>set (takeWhile isspace s). isspace x" by (auto dest: set_takeWhileD)
  moreover have "\<forall>x\<in>set (rev (takeWhile isspace (rev ?d))). isspace x"
    by (auto dest: set_takeWhileD)
  ultimately show ?thesis using a b by metis
qed

lemma str_split_strip: "str_split (str_strip s) = str_split s"
proof -
  obtain w1 w2 where w: "\<forall>x\<in>set w1. isspace x" "\<forall>x\<in>set w2. isspace x" "s = w1 @ str_strip s @ w2"
    using str_strip_decomp by blast
  have "str_split s = str_split (w1 @ str_strip s @ w2)" using w(3) by simp
  also have "\<dots> = str_split (str_strip s @ w2)" by (rule str_split_leading [OF w(1)])
  also have "\<dots> = str_split (str_strip s)" by (rule str_split_trailing [OF w(2)])
  finally show ?thesis by simp
qed

section \<open>Tokens and maximal runs\<close>

lemma length_str_split_aux:
  "length (str_split s) = count_starts True s \<and>
   length (str_split (dropWhile (\<lambda>x. \<not> isspace x) s)) = count_starts False s"
  by (induction s) (simp_all add: str_split_Nil str_split_space str_split_nonspace)

lemma length_str_split: "length (str_split s) = count_starts True s"
  using length_str_split_aux by blast

lemma run_starts_Cons:
  "{i. is_run_start b (c # cs) i} =
     (if b \<and> \<not> isspace c then {0} else {}) \<union> Suc ` {i. is_run_start (isspace c) cs i}"
proof (intro set_eqI iffI)
  fix i assume "i \<in> {i. is_run_start b (c # cs) i}"
  then show "i \<in> (if b \<and> \<not> isspace c then {0} else {}) \<union> Suc ` {i. is_run_start (isspace c) cs i}"
    by (cases i) (auto simp: is_run_start_def nth_Cons split: nat.splits if_splits)
next
  fix i assume "i \<in> (if b \<and> \<not> isspace c then {0} else {}) \<union> Suc ` {i. is_run_start (isspace c) cs i}"
  then show "i \<in> {i. is_run_start b (c # cs) i}"
    by (cases i) (auto simp: is_run_start_def nth_Cons split: nat.splits if_splits)
qed

lemma finite_run_starts: "finite {i. is_run_start b t i}"
proof -
  have "{i. is_run_start b t i} \<subseteq> {..<length t}" by (auto simp: is_run_start_def)
  then show ?thesis by (rule finite_subset) simp
qed

lemma card_run_starts: "card {i. is_run_start b t i} = count_starts b t"
proof (induction t arbitrary: b)
  case Nil
  show ?case by (simp add: is_run_start_def)
next
  case (Cons c cs)
  let ?A = "if b \<and> \<not> isspace c then {0::nat} else {}"
  let ?B = "Suc ` {i. is_run_start (isspace c) cs i}"
  have "card (?A \<union> ?B) = card ?A + card ?B"
  proof (rule card_Un_disjoint)
    show "finite ?A" by simp
    show "finite ?B" by (simp add: finite_run_starts)
    show "?A \<inter> ?B = {}" by auto
  qed
  also have "card ?B = card {i. is_run_start (isspace c) cs i}"
    by (intro card_image) simp
  finally show ?case by (simp add: run_starts_Cons Cons.IH)
qed

lemma is_maximal_run_iff:
  "is_maximal_run t (i, j) \<longleftrightarrow>
     i < j \<and> j \<le> length t \<and> (\<forall>k. i \<le> k \<and> k < j \<longrightarrow> \<not> isspace (t ! k)) \<and>
     (i = 0 \<or> isspace (t ! (i - 1))) \<and> (j = length t \<or> isspace (t ! j))"
proof -
  have "list_all (\<lambda>k. \<not> isspace (t ! k)) [i..<j] \<longleftrightarrow> (\<forall>k. i \<le> k \<and> k < j \<longrightarrow> \<not> isspace (t ! k))"
    by (auto simp: list_all_iff)
  then show ?thesis by (simp add: is_maximal_run_def)
qed

lemma maximal_run_start:
  assumes "is_maximal_run t (i, j)"
  shows "is_run_start True t i"
proof -
  from assms have a: "i < j" "j \<le> length t" "\<forall>k. i \<le> k \<and> k < j \<longrightarrow> \<not> isspace (t ! k)"
      "i = 0 \<or> isspace (t ! (i - 1))"
    by (simp_all add: is_maximal_run_iff)
  have "i < length t" using a(1,2) by simp
  moreover have "\<not> isspace (t ! i)" using a(1,3) by simp
  ultimately show ?thesis using a(4) by (auto simp: is_run_start_def)
qed

lemma maximal_run_end_le:
  assumes "is_maximal_run t (i, j)" "is_maximal_run t (i, j')"
  shows "j \<le> j'"
proof (rule ccontr)
  assume "\<not> j \<le> j'"
  then have lt: "j' < j" by simp
  from assms(1) have a: "j \<le> length t" "\<forall>k. i \<le> k \<and> k < j \<longrightarrow> \<not> isspace (t ! k)"
    by (simp_all add: is_maximal_run_iff)
  from assms(2) have b: "i < j'" "j' = length t \<or> isspace (t ! j')"
    by (simp_all add: is_maximal_run_iff)
  have "j' \<noteq> length t" using lt a(1) by simp
  then have "isspace (t ! j')" using b(2) by simp
  moreover have "\<not> isspace (t ! j')" using a(2) b(1) lt by simp
  ultimately show False by simp
qed

lemma maximal_run_unique:
  "is_maximal_run t (i, j) \<Longrightarrow> is_maximal_run t (i, j') \<Longrightarrow> j = j'"
  by (simp add: maximal_run_end_le order_antisym)


lemma maximal_run_exists:
  assumes "is_run_start True t i"
  shows "\<exists>j. is_maximal_run t (i, j)"
proof -
  let ?Q = "\<lambda>j. i < j \<and> (j = length t \<or> isspace (t ! j))"
  let ?j = "LEAST j. ?Q j"
  from assms have s: "i < length t" "\<not> isspace (t ! i)" "i = 0 \<or> isspace (t ! (i - 1))"
    by (auto simp: is_run_start_def split: if_splits)
  have top: "?Q (length t)" using s(1) by simp
  then have q: "?Q ?j" by (rule LeastI)
  have le: "?j \<le> length t" using top by (rule Least_le)
  have mid: "\<not> isspace (t ! k)" if "i \<le> k \<and> k < ?j" for k
  proof (cases "k = i")
    case True
    then show ?thesis using s(2) by simp
  next
    case False
    then have "i < k" using that by simp
    moreover have "\<not> ?Q k" using that by (intro not_less_Least) simp
    moreover have "k \<noteq> length t" using that le by simp
    ultimately show ?thesis by simp
  qed
  have "is_maximal_run t (i, ?j)"
    unfolding is_maximal_run_iff using q le mid s(3) by blast
  then show ?thesis ..
qed

lemma card_maximal_runs: "card {r. is_maximal_run t r} = card {i. is_run_start True t i}"
proof -
  have inj: "inj_on fst {r. is_maximal_run t r}"
  proof (rule inj_onI)
    fix r r' assume a: "r \<in> {r. is_maximal_run t r}" "r' \<in> {r. is_maximal_run t r}" "fst r = fst r'"
    obtain i j where r: "r = (i, j)" by (cases r)
    obtain i' j' where r': "r' = (i', j')" by (cases r')
    have "i = i'" using a(3) r r' by simp
    then have "is_maximal_run t (i, j)" "is_maximal_run t (i, j')" using a(1,2) r r' by simp_all
    then have "j = j'" by (rule maximal_run_unique)
    then show "r = r'" using \<open>i = i'\<close> r r' by simp
  qed
  have "fst ` {r. is_maximal_run t r} = {i. is_run_start True t i}"
  proof (intro equalityI subsetI)
    fix i assume "i \<in> fst ` {r. is_maximal_run t r}"
    then obtain j where "is_maximal_run t (i, j)" by force
    then show "i \<in> {i. is_run_start True t i}" by (simp add: maximal_run_start)
  next
    fix i assume "i \<in> {i. is_run_start True t i}"
    then obtain j where "is_maximal_run t (i, j)" using maximal_run_exists by blast
    then have "(i, j) \<in> {r. is_maximal_run t r}" by simp
    then show "i \<in> fst ` {r. is_maximal_run t r}" by (rule image_eqI [rotated]) simp
  qed
  then show ?thesis using card_image [OF inj] by simp
qed

lemma set_maximal_runs: "set (maximal_runs t) = {r. is_maximal_run t r}"
proof (intro equalityI subsetI)
  fix r assume "r \<in> set (maximal_runs t)"
  then show "r \<in> {r. is_maximal_run t r}" by (simp add: maximal_runs_def)
next
  fix r assume a: "r \<in> {r. is_maximal_run t r}"
  obtain i j where r: "r = (i, j)" by (cases r)
  have m: "is_maximal_run t (i, j)" using a r by simp
  then have "i < j" "j \<le> length t" by (simp_all add: is_maximal_run_iff)
  then have "i \<in> set [0..<length t]" "j \<in> set [0..<Suc (length t)]" by auto
  then have "(i, j) \<in> set (List.product [0..<length t] [0..<Suc (length t)])"
    by (simp only: set_product mem_Times_iff fst_conv snd_conv)
  then show "r \<in> set (maximal_runs t)" using m r by (simp add: maximal_runs_def)
qed

lemma length_maximal_runs: "length (maximal_runs t) = card {r. is_maximal_run t r}"
proof -
  have "distinct (List.product [0..<length t] [0..<Suc (length t)])"
    by (intro distinct_product) simp_all
  then have "distinct (maximal_runs t)"
    unfolding maximal_runs_def by (rule distinct_filter)
  then have "card (set (maximal_runs t)) = length (maximal_runs t)" by (rule distinct_card)
  then show ?thesis by (simp only: set_maximal_runs)
qed

lemma str_split_maximal_runs: "length (str_split t) = length (maximal_runs t)"
  by (simp only: length_str_split length_maximal_runs card_maximal_runs card_run_starts)

section \<open>The result of \<open>count_words\<close> on a string\<close>

lemma str_split_nonempty: "tok \<in> set (str_split s) \<Longrightarrow> tok \<noteq> []"
proof (induction s rule: str_split.induct)
  case (1 s)
  show ?case
  proof (cases "dropWhile isspace s")
    case Nil
    have "str_split s = []" by (subst str_split.simps) (simp only: Nil list.case)
    then show ?thesis using 1(2) by simp
  next
    case (Cons x xs)
    have "str_split s =
        (x # takeWhile (\<lambda>x. \<not> isspace x) xs) # str_split (dropWhile (\<lambda>x. \<not> isspace x) xs)"
      by (subst str_split.simps) (simp only: Cons list.case)
    then show ?thesis using 1(1) [OF Cons] 1(2) by auto
  qed
qed

lemma word_count_str:
  "word_count (count_words (PyStr s)) = int (count_starts True s)"
  by (simp add: count_words_def str_split_strip length_str_split)

lemma count_words_str:
  "count_words (PyStr s) =
     \<lparr>word_count = int (count_starts True s), success = True,
      message = str_lit ''Word count successful''\<rparr>"
  by (simp add: count_words_def str_split_strip length_str_split)

lemma count_starts_blank: "\<forall>c\<in>set s. isspace c \<Longrightarrow> count_starts b s = 0"
  by (induction s arbitrary: b) simp_all

lemma maximal_runs_example: "maximal_runs (str_lit ''a  bc'') = [(0, 1), (3, 5)]"
  by (simp add: maximal_runs_def is_maximal_run_def str_lit_def isspace_def upt_rec_numeral
      upt_conv_Cons)

section \<open>Direct calls on plain values\<close>



section \<open>The claims\<close>

text \<open>
  C1. For every string \<open>s\<close>, the \<open>word_count\<close> of \<open>count_words(s)\<close> is the number of
  maximal non-whitespace runs of \<open>s\<close> after trimming; it is also the number of non-empty
  tokens that splitting the trimmed string yields.
\<close>

theorem count_words_counts_maximal_runs:
  "word_count (count_words (PyStr s)) = int (length (maximal_runs (str_strip s))) \<and>
   word_count (count_words (PyStr s)) =
     int (length (filter (\<lambda>tok. tok \<noteq> []) (str_split (str_strip s))))"
proof -
  have "filter (\<lambda>tok. tok \<noteq> []) (str_split (str_strip s)) = str_split (str_strip s)"
    by (simp add: str_split_nonempty)
  moreover have "word_count (count_words (PyStr s)) = int (length (str_split (str_strip s)))"
    by (simp add: count_words_def)
  ultimately show ?thesis by (simp only: str_split_maximal_runs simp_thms)
qed

theorem count_words_counts_maximal_runs_witness:
  "word_count (count_words (PyStr (str_lit '' ab  cd ''))) = 2 \<and>
   str_strip (str_lit '' ab  cd '') = str_lit ''ab  cd'' \<and>
   length (maximal_runs (str_lit ''ab  cd'')) = 2"
proof -
  have a: "str_strip (str_lit '' ab  cd '') = str_lit ''ab  cd''"
    by (simp add: str_strip_def str_lit_def isspace_def)
  have b: "word_count (count_words (PyStr (str_lit '' ab  cd ''))) = 2"
    by (simp add: word_count_str str_lit_def isspace_def)
  show ?thesis
    using count_words_counts_maximal_runs [of "str_lit '' ab  cd ''"] a b by simp
qed

text \<open>
  C2, as amended. On the sample input of \<open>run_sample\<close>, \<open>count_words\<close> yields
  \<open>word_count = 22\<close>: the sample has 22 whitespace-delimited tokens.
\<close>

theorem count_words_sample: "word_count (count_words (PyStr sample_input)) = 22"
  by (simp add: word_count_str sample_input_def str_lit_def isspace_def)

text \<open>
  C2, as stated (\<open>word_count = 24\<close> on the sample input), does not hold.
\<close>

theorem count_words_sample_not_24: "word_count (count_words (PyStr sample_input)) \<noteq> 24"
  by (simp add: word_count_str sample_input_def str_lit_def isspace_def)




text \<open>
  C4. Every result of \<open>count_words\<close> satisfies the invariant of the data model:
  \<open>success\<close> holds if and only if the message is the fixed success string and the word
  count is a well-defined (non-negative) number; the word count is non-negative in every
  result; a result with \<open>success = False\<close> carries a message other than the success string;
  and on an empty or whitespace-only string the word count is 0.
\<close>

theorem count_words_invariant:
  "(success (count_words input) \<longleftrightarrow>
      message (count_words input) = str_lit ''Word count successful'' \<and>
      0 \<le> word_count (count_words input)) \<and>
   0 \<le> word_count (count_words input) \<and>
   (\<not> success (count_words input) \<longrightarrow>
      message (count_words input) \<noteq> str_lit ''Word count successful'') \<and>
   ((\<forall>c\<in>set s. isspace c) \<longrightarrow> word_count (count_words (PyStr s)) = 0)"
proof -
  have blank: "(\<forall>c\<in>set s. isspace c) \<longrightarrow> word_count (count_words (PyStr s)) = 0"
    by (simp add: word_count_str count_starts_blank)
  have inv: "(success (count_words input) \<longleftrightarrow>
      message (count_words input) = str_lit ''Word count successful'') \<and>
      0 \<le> word_count (count_words input)"
  proof (cases "num_words input")
    case (Inl e)
    then show ?thesis by (simp add: count_words_def str_lit_def)
  next
    case (Inr n)
    then obtain s' where "input = PyStr s'" by (cases input) simp_all
    then show ?thesis by (simp add: count_words_str)
  qed
  from inv blank show ?thesis by blast
qed

theorem count_words_invariant_witness:
  "success (count_words (PyStr (str_lit ''hello world''))) \<and>
   message (count_words (PyStr (str_lit ''hello world''))) = str_lit ''Word count successful'' \<and>
   \<not> success (count_words (PyInt 7)) \<and>
   message (count_words (PyInt 7)) \<noteq> str_lit ''Word count successful'' \<and>
   list_all isspace (str_lit ''   '') \<and>
   word_count (count_words (PyStr (str_lit ''   ''))) = 0"
proof -
  have a: "success (count_words (PyStr (str_lit ''hello world'')))"
    by (simp add: count_words_def)
  have b: "\<not> success (count_words (PyInt 7))"
    by (simp add: count_words_def)
  have c: "list_all isspace (str_lit ''   '')"
    by (simp add: str_lit_def isspace_def)
  then have c': "\<forall>c\<in>set (str_lit ''   ''). isspace c"
    by (simp only: list_all_iff)
  show ?thesis
    using count_words_invariant [of "PyStr (str_lit ''hello world'')" "str_lit ''   ''"]
      count_words_invariant [of "PyInt 7" "[]"] a b c c'
    by blast
qed

text \<open>
  C5. On every string that is empty or holds only whitespace, in particular on \<open>""\<close> and
  on \<open>"   "\<close>, \<open>count_words\<close> returns \<open>word_count = 0\<close> and \<open>success = True\<close> (with the
  success message).
\<close>

theorem count_words_blank:
  "\<forall>c\<in>set s. isspace c \<Longrightarrow>
   count_words (PyStr s) =
     \<lparr>word_count = 0, success = True, message = str_lit ''Word count successful''\<rparr>"
  by (simp add: count_words_str count_starts_blank)

theorem count_words_blank_witness:
  "list_all isspace (str_lit []) \<and>
   word_count (count_words (PyStr (str_lit []))) = 0 \<and>
   success (count_words (PyStr (str_lit []))) \<and>
   list_all isspace (str_lit ''   '') \<and>
   word_count (count_words (PyStr (str_lit ''   ''))) = 0 \<and>
   success (count_words (PyStr (str_lit ''   '')))"
proof -
  have a: "list_all isspace (str_lit [])"
    by (simp add: str_lit_def)
  have b: "list_all isspace (str_lit ''   '')"
    by (simp add: str_lit_def isspace_def)
  have a': "\<forall>c\<in>set (str_lit []). isspace c"
    using a by (simp only: list_all_iff)
  have b': "\<forall>c\<in>set (str_lit ''   ''). isspace c"
    using b by (simp only: list_all_iff)
  show ?thesis
    using count_words_blank [OF a'] count_words_blank [OF b'] a b by simp
qed

text \<open>
  C6. \<open>count_words("hello world")\<close> is exactly \<open>word_count = 2\<close>, \<open>success = True\<close>,
  \<open>message = "Word count successful"\<close>, and \<open>count_words("one  two   three")\<close> has
  \<open>word_count = 3\<close>.
\<close>

theorem count_words_examples:
  "count_words (PyStr (str_lit ''hello world'')) =
     \<lparr>word_count = 2, success = True, message = str_lit ''Word count successful''\<rparr> \<and>
   word_count (count_words (PyStr (str_lit ''one  two   three''))) = 3"
  by (simp add: count_words_str str_lit_def isspace_def)

text \<open>
  C7. The error branch is unreachable on a string: for every \<open>str\<close> input the \<open>try\<close>
  block yields a number and raises nothing, and \<open>count_words\<close> returns the success result
  with that number.
\<close>

theorem count_words_str_never_fails:
  "(\<exists>n. num_words (PyStr s) = Inr n \<and>
        count_words (PyStr s) =
          \<lparr>word_count = n, success = True, message = str_lit ''Word count successful''\<rparr>) \<and>
   (\<forall>e. num_words (PyStr s) \<noteq> Inl e)"
  by (simp add: count_words_def)

text \<open>
  C9. For all strings \<open>s1\<close> and \<open>s2\<close>, the word count of \<open>s1 + " " + s2\<close> is the sum of
  the word counts of \<open>s1\<close> and of \<open>s2\<close>.
\<close>

theorem count_words_concat:
  "word_count (count_words (PyStr (s1 @ str_lit '' '' @ s2))) =
     word_count (count_words (PyStr s1)) + word_count (count_words (PyStr s2))"
proof -
  have sp: "isspace 0x20" by (simp add: isspace_def)
  have "str_lit '' '' = [0x20]" by (simp add: str_lit_def)
  then have "str_split (s1 @ str_lit '' '' @ s2) = str_split s1 @ str_split s2"
    using str_split_sep [OF sp, of s1 s2] by simp
  then show ?thesis by (simp add: count_words_def str_split_strip)
qed

text \<open>
  C10. For every string \<open>s\<close> and all whitespace-only strings \<open>w1\<close> and \<open>w2\<close>,
  \<open>count_words(w1 + s + w2)\<close> returns the same result, in all three fields, as
  \<open>count_words(s)\<close>.
\<close>

theorem count_words_padding:
  assumes "\<forall>c\<in>set w1. isspace c" and "\<forall>c\<in>set w2. isspace c"
  shows "count_words (PyStr (w1 @ s @ w2)) = count_words (PyStr s)"
proof -
  have "str_split (w1 @ s @ w2) = str_split (s @ w2)"
    by (rule str_split_leading [OF assms(1)])
  also have "\<dots> = str_split s"
    by (rule str_split_trailing [OF assms(2)])
  finally show ?thesis by (simp add: count_words_def str_split_strip)
qed

theorem count_words_padding_witness:
  "list_all isspace (str_lit ''  '') \<and> list_all isspace [0x09, 0x0A, 0x3000] \<and>
   count_words (PyStr (str_lit ''  '' @ str_lit ''a b'' @ [0x09, 0x0A, 0x3000])) =
     count_words (PyStr (str_lit ''a b''))"
proof -
  have a: "list_all isspace (str_lit ''  '')"
    by (simp add: str_lit_def isspace_def)
  have b: "list_all isspace [0x09, 0x0A, 0x3000]"
    by (simp add: isspace_def)
  have a': "\<forall>c\<in>set (str_lit ''  ''). isspace c"
    using a by (simp only: list_all_iff)
  have b': "\<forall>c\<in>set [0x09, 0x0A, 0x3000]. isspace c"
    using b by (simp only: list_all_iff)
  show ?thesis
    using count_words_padding [OF a' b', of "str_lit ''a b''"] a b by simp
qed

end
